theory Spec2Isabelle
  imports Complex_Main
begin

section \<open>The EV charger simulator: data\<close>

text \<open>
  The simulator is one React component (\<^verbatim>\<open>App.tsx\<close>) and a three-function HTTP client
  (\<^verbatim>\<open>api.ts\<close>). Numbers are JavaScript doubles; they are idealised here as
  \<^typ>\<open>real\<close>, so rounding error and overflow of the doubles are outside that
  model. The generator is given a second time in double arithmetic, for the bounds
  that the rounding decides.
  The only operation of the generator that leaves the finite numbers on finite
  operands is the division that derives the current, so that one result is kept in a
  type of its own.
\<close>

datatype jsnum = Num real | Infinity | NegInfinity | NaN

text \<open>JavaScript \<^verbatim>\<open>a / b\<close> on finite operands (the divisor zero is the positive zero).\<close>

definition js_div :: "real \<Rightarrow> real \<Rightarrow> jsnum" where
  "js_div a b =
     (if b \<noteq> 0 then Num (a / b)
      else if 0 < a then Infinity
      else if a < 0 then NegInfinity
      else NaN)"

datatype SessionStatus = idle | starting | running | stopping | error

record ChargerState =
  soc :: real
  powerW :: real
  voltageV :: real
  currentA :: jsnum
  tempC :: real

definition INITIAL_SOC :: real where
  "INITIAL_SOC = 20"

definition TARGET_SOC :: real where
  "TARGET_SOC = 90"

definition INTERVAL_SECONDS :: real where
  "INTERVAL_SECONDS = 1"

text \<open>
  The four results of \<^verbatim>\<open>Math.random()\<close> that one call of the generator consumes, in
  the order of the calls. \<^verbatim>\<open>Math.random()\<close> returns a number in \<open>[0, 1)\<close>.
\<close>

record Draws =
  r_soc :: real
  r_voltage :: real
  r_power :: real
  r_temp :: real

definition unit_draw :: "real \<Rightarrow> bool" where
  "unit_draw r = (0 \<le> r \<and> r < 1)"

definition valid_draws :: "Draws \<Rightarrow> bool" where
  "valid_draws d =
     (unit_draw (r_soc d) \<and> unit_draw (r_voltage d) \<and> unit_draw (r_power d) \<and> unit_draw (r_temp d))"

section \<open>The telemetry generator\<close>

text \<open>\<^verbatim>\<open>generateNextState\<close> (App.tsx, lines 22-43), with the random results as an argument.\<close>

definition generateNextState :: "Draws \<Rightarrow> ChargerState \<Rightarrow> ChargerState" where
  "generateNextState d prev =
     (let soc' = min TARGET_SOC (soc prev + 1 + r_soc d * 1);
          voltageV' = 380 + r_voltage d * 40;
          socPercent = soc' / 100;
          socFactor = 1 - max 0 (socPercent - 0.6) * 1.5;
          maxPower = 50000;
          powerBase = maxPower * max 0.2 socFactor;
          powerW' = powerBase * (0.9 + r_power d * 0.2);
          currentA' = js_div powerW' voltageV';
          tempC' = tempC prev + (r_temp d * 0.5)
      in \<lparr>soc = soc', powerW = powerW', voltageV = voltageV', currentA = currentA', tempC = tempC'\<rparr>)"


section \<open>The energy integration step\<close>

text \<open>
  The three lines of \<^verbatim>\<open>sendUpdate\<close> that compute the energy increment (App.tsx, lines
  166-170): power in kW times time in hours, added to the accumulator.
\<close>

definition integrate :: "real \<Rightarrow> real \<Rightarrow> real \<Rightarrow> real" where
  "integrate energyDispensed' powerW' intervalSeconds =
     (let powerKW = powerW' / 1000;
          timeHours = intervalSeconds / 3600;
          energyIncrement = powerKW * timeHours
      in energyDispensed' + energyIncrement)"

fun integrateAll :: "real list \<Rightarrow> real \<Rightarrow> real \<Rightarrow> real" where
  "integrateAll [] intervalSeconds e = e"
| "integrateAll (p # ps) intervalSeconds e = integrateAll ps intervalSeconds (integrate e p intervalSeconds)"

section \<open>The collector client\<close>

text \<open>
  \<^verbatim>\<open>x.toFixed(2)\<close> read back by \<^verbatim>\<open>parseFloat\<close>: the closest multiple of \<open>1/100\<close>, a tie
  going to the larger magnitude; the sign is split off first, as \<^verbatim>\<open>toFixed\<close> does.
\<close>

definition toFixed2 :: "real \<Rightarrow> real" where
  "toFixed2 x =
     (if x < 0 then - (of_int \<lfloor>- x * 100 + 1 / 2\<rfloor> / 100)
      else of_int \<lfloor>x * 100 + 1 / 2\<rfloor> / 100)"

fun toFixed2_js :: "jsnum \<Rightarrow> jsnum" where
  "toFixed2_js (Num x) = Num (toFixed2 x)"
| "toFixed2_js Infinity = Infinity"
| "toFixed2_js NegInfinity = NegInfinity"
| "toFixed2_js NaN = NaN"

record ChargeUpdatePayload =
  sample_time_increment :: real
  soc_field :: real
  temp_c :: real
  avg_power_w :: real
  avg_current_a :: jsnum
  avg_voltage_v :: real

text \<open>
  A request as it leaves \<^verbatim>\<open>fetch\<close>: every call is a POST; the path after the base URL
  and the JSON body, if the call sends one. The start timestamp stands for its ISO
  rendering.
\<close>

datatype endpoint = start_charge | charge_update string | charge_end string

datatype json = StartChargeBody nat real | ChargeUpdateBody ChargeUpdatePayload

record request =
  endpoint :: endpoint
  body :: "json option"

definition startCharge :: "nat \<Rightarrow> real \<Rightarrow> request" where
  "startCharge startedAt socStart =
     \<lparr>endpoint = start_charge, body = Some (StartChargeBody startedAt socStart)\<rparr>"

definition sendChargeUpdate :: "string \<Rightarrow> ChargeUpdatePayload \<Rightarrow> request" where
  "sendChargeUpdate transactionId' payload =
     \<lparr>endpoint = charge_update transactionId', body = Some (ChargeUpdateBody payload)\<rparr>"

text \<open>
  \<^verbatim>\<open>endCharge\<close> (api.ts, lines 53-63) has the transaction id as its only parameter and
  posts without a body. A second argument at a call site is evaluated and dropped.
\<close>

definition endCharge :: "string \<Rightarrow> request" where
  "endCharge transactionId' = \<lparr>endpoint = charge_end transactionId', body = None\<rparr>"

definition isStartCall :: "request \<Rightarrow> bool" where
  "isStartCall r = (case endpoint r of start_charge \<Rightarrow> True | _ \<Rightarrow> False)"

definition isUpdateCall :: "request \<Rightarrow> bool" where
  "isUpdateCall r = (case endpoint r of charge_update _ \<Rightarrow> True | _ \<Rightarrow> False)"

definition isEndCall :: "request \<Rightarrow> bool" where
  "isEndCall r = (case endpoint r of charge_end _ \<Rightarrow> True | _ \<Rightarrow> False)"

text \<open>The record both \<^verbatim>\<open>sendUpdate\<close> and \<^verbatim>\<open>stopSession\<close> build from a charger state.\<close>

definition mkPayload :: "ChargerState \<Rightarrow> ChargeUpdatePayload" where
  "mkPayload c =
     \<lparr>sample_time_increment = INTERVAL_SECONDS,
      soc_field = toFixed2 (soc c),
      temp_c = toFixed2 (tempC c),
      avg_power_w = toFixed2 (powerW c),
      avg_current_a = toFixed2_js (currentA c),
      avg_voltage_v = toFixed2 (voltageV c)\<rparr>"

section \<open>The session state machine\<close>

text \<open>
  The component's state variables and its interval reference, together with what the
  component has set going outside itself: the interval timers that are live, the
  requests issued so far, and the calls whose promise has not settled yet. A handler
  or continuation runs up to its next \<^verbatim>\<open>await\<close> as one step, and a state updater
  runs once per call.

  \<^item> The state variable \<^verbatim>\<open>error\<close> is the field \<open>errorMessage\<close> (\<open>error\<close> is the
    status of that name).
  \<^item> A live interval timer is its handle and the \<^verbatim>\<open>transaction_id\<close> its
    \<^verbatim>\<open>sendUpdate\<close> closure captured when \<^verbatim>\<open>startSession\<close> created it.
  \<^item> A call is named by its position in \<open>requests\<close>. A pending \<^verbatim>\<open>startCharge\<close> keeps
    the \<^verbatim>\<open>sessionStartTime\<close> its continuation captured.
  \<^item> The elapsed-time interval belongs to the effect on \<^verbatim>\<open>[status, startTime]\<close>: it is
    live exactly while the status is \<open>running\<close> and \<open>startTime\<close> is set, which is the
    guard of the event \<open>ElapsedFired\<close> below, so \<^verbatim>\<open>timeIntervalRef\<close> has no field.
\<close>

record App =
  status :: SessionStatus
  errorMessage :: "string option"
  transactionId :: "string option"
  chargerState :: ChargerState
  startTime :: "nat option"
  elapsedSeconds :: int
  energyDispensed :: real
  intervalRef :: "nat option"
  timers :: "(nat \<times> string) list"
  nextHandle :: nat
  requests :: "request list"
  pendingStart :: "(nat \<times> nat) list"
  pendingUpdate :: "nat list"
  pendingEnd :: "nat list"

definition initialChargerState :: ChargerState where
  "initialChargerState =
     \<lparr>soc = INITIAL_SOC, powerW = 0, voltageV = 400, currentA = Num 0, tempC = 20\<rparr>"

definition initialApp :: App where
  "initialApp =
     \<lparr>status = idle, errorMessage = None, transactionId = None,
      chargerState = initialChargerState, startTime = None, elapsedSeconds = 0,
      energyDispensed = 0, intervalRef = None, timers = [], nextHandle = 0,
      requests = [], pendingStart = [], pendingUpdate = [], pendingEnd = []\<rparr>"

text \<open>
  \<^verbatim>\<open>sendUpdate\<close> (App.tsx, lines 162-191) for the closure that captured
  \<open>transaction_id\<close>: the next charger state, the energy increment, and the update call
  when the captured id is truthy (a non-empty string).
\<close>

definition sendUpdate :: "string \<Rightarrow> Draws \<Rightarrow> App \<Rightarrow> App" where
  "sendUpdate transaction_id d s =
     (let next = generateNextState d (chargerState s);
          payload = mkPayload next;
          s1 = s\<lparr>energyDispensed := integrate (energyDispensed s) (powerW next) INTERVAL_SECONDS,
                 chargerState := next\<rparr>
      in if transaction_id \<noteq> []
         then s1\<lparr>requests := requests s1 @ [sendChargeUpdate transaction_id payload],
                 pendingUpdate := pendingUpdate s1 @ [length (requests s1)]\<rparr>
         else s1)"

text \<open>The \<^verbatim>\<open>catch\<close> of the update call (App.tsx, lines 182-186); \<open>message\<close> is \<^verbatim>\<open>e.message\<close>.\<close>

definition updateRejected :: "string option \<Rightarrow> App \<Rightarrow> App" where
  "updateRejected message s = s\<lparr>errorMessage := message, status := error\<rparr>"

text \<open>\<^verbatim>\<open>startSession\<close> (App.tsx, lines 147-203) up to its \<^verbatim>\<open>await startCharge\<close>.\<close>

definition startSession :: "nat \<Rightarrow> App \<Rightarrow> App" where
  "startSession now s =
     (let s1 = s\<lparr>errorMessage := None, status := starting\<rparr>;
          sessionStartTime = now
      in s1\<lparr>requests := requests s1 @ [startCharge sessionStartTime (toFixed2 INITIAL_SOC)],
             pendingStart := pendingStart s1 @ [(length (requests s1), sessionStartTime)]\<rparr>)"

text \<open>
  Its continuation when the call resolves with \<open>transaction_id\<close>: the session fields,
  the first update at once, then the interval.
\<close>

definition startResolved :: "string \<Rightarrow> nat \<Rightarrow> Draws \<Rightarrow> App \<Rightarrow> App" where
  "startResolved transaction_id sessionStartTime d s =
     (let s1 = s\<lparr>transactionId := Some transaction_id, startTime := Some sessionStartTime,
                 elapsedSeconds := 0, energyDispensed := 0, status := running\<rparr>;
          s2 = sendUpdate transaction_id d s1;
          h = nextHandle s2
      in s2\<lparr>intervalRef := Some h, timers := timers s2 @ [(h, transaction_id)],
             nextHandle := h + 1\<rparr>)"

text \<open>Its \<^verbatim>\<open>catch\<close> (lines 198-202).\<close>

definition startRejected :: "string option \<Rightarrow> App \<Rightarrow> App" where
  "startRejected message s =
     s\<lparr>errorMessage := Some (case message of Some m \<Rightarrow> m | None \<Rightarrow> ''Failed to start session''),
       status := error\<rparr>"

text \<open>The reset at the end of \<^verbatim>\<open>stopSession\<close> (lines 236-248).\<close>

definition resetState :: "App \<Rightarrow> App" where
  "resetState s =
     s\<lparr>status := idle, transactionId := None, startTime := None, elapsedSeconds := 0,
       energyDispensed := 0, chargerState := initialChargerState\<rparr>"

definition clearInterval :: "nat \<Rightarrow> (nat \<times> string) list \<Rightarrow> (nat \<times> string) list" where
  "clearInterval h ts = filter (\<lambda>t. fst t \<noteq> h) ts"

text \<open>
  \<^verbatim>\<open>stopSession\<close> (lines 205-249) up to its \<^verbatim>\<open>await endCharge\<close>; with a falsy
  transaction id there is no call and the reset follows at once. The final payload
  is built and handed to \<^verbatim>\<open>endCharge\<close>, which has no parameter for it.
\<close>

definition stopSession :: "App \<Rightarrow> App" where
  "stopSession s =
     (let s1 = s\<lparr>status := stopping\<rparr>;
          s2 = (case intervalRef s1 of
                  Some h \<Rightarrow> s1\<lparr>timers := clearInterval h (timers s1), intervalRef := None\<rparr>
                | None \<Rightarrow> s1)
      in case transactionId s of
           Some tid \<Rightarrow>
             if tid \<noteq> []
             then (let finalPayload = mkPayload (chargerState s)
                   in s2\<lparr>requests := requests s2 @ [endCharge tid],
                          pendingEnd := pendingEnd s2 @ [length (requests s2)]\<rparr>)
             else resetState s2
         | None \<Rightarrow> resetState s2)"

text \<open>
  The two buttons (App.tsx, lines 340-346 and 351-359): END SESSION is disabled unless
  the status is \<open>running\<close>; START CHARGING is rendered unless it is \<open>running\<close> and
  disabled while it is \<open>starting\<close>.
\<close>

definition stopEnabled :: "App \<Rightarrow> bool" where
  "stopEnabled s = (status s = running)"

definition startEnabled :: "App \<Rightarrow> bool" where
  "startEnabled s = (status s \<noteq> running \<and> status s \<noteq> starting)"

text \<open>
  What the event loop delivers to the component, one at a time: a click with the clock
  reading, the settling of a call, the firing of an interval. An event that cannot
  happen in a state (a click on a disabled button, the settling of a call that is not
  pending, the firing of a timer that is not live) leaves the state as it is.
\<close>

datatype event =
    ClickStart nat
  | ClickStop
  | StartResolved nat string Draws
  | StartRejected nat "string option"
  | UpdateResolved nat
  | UpdateRejected nat "string option"
  | EndResolved nat
  | EndRejected nat "string option"
  | IntervalFired nat Draws
  | ElapsedFired nat

definition elapsed :: "nat \<Rightarrow> App \<Rightarrow> App" where
  "elapsed now s =
     (case startTime s of
        Some t0 \<Rightarrow>
          if status s = running then s\<lparr>elapsedSeconds := (int now - int t0) div 1000\<rparr> else s
      | None \<Rightarrow> s)"

fun step :: "event \<Rightarrow> App \<Rightarrow> App" where
  "step (ClickStart now) s = (if startEnabled s then startSession now s else s)"
| "step ClickStop s = (if stopEnabled s then stopSession s else s)"
| "step (StartResolved k transaction_id d) s =
     (case map_of (pendingStart s) k of
        Some t0 \<Rightarrow>
          startResolved transaction_id t0 d
            (s\<lparr>pendingStart := filter (\<lambda>p. fst p \<noteq> k) (pendingStart s)\<rparr>)
      | None \<Rightarrow> s)"
| "step (StartRejected k message) s =
     (if k \<in> fst ` set (pendingStart s)
      then startRejected message (s\<lparr>pendingStart := filter (\<lambda>p. fst p \<noteq> k) (pendingStart s)\<rparr>)
      else s)"
| "step (UpdateResolved k) s =
     (if k \<in> set (pendingUpdate s) then s\<lparr>pendingUpdate := removeAll k (pendingUpdate s)\<rparr> else s)"
| "step (UpdateRejected k message) s =
     (if k \<in> set (pendingUpdate s)
      then updateRejected message (s\<lparr>pendingUpdate := removeAll k (pendingUpdate s)\<rparr>)
      else s)"
| "step (EndResolved k) s =
     (if k \<in> set (pendingEnd s) then resetState (s\<lparr>pendingEnd := removeAll k (pendingEnd s)\<rparr>) else s)"
| "step (EndRejected k message) s =
     (if k \<in> set (pendingEnd s) then resetState (s\<lparr>pendingEnd := removeAll k (pendingEnd s)\<rparr>) else s)"
| "step (IntervalFired h d) s =
     (case map_of (timers s) h of Some transaction_id \<Rightarrow> sendUpdate transaction_id d s | None \<Rightarrow> s)"
| "step (ElapsedFired now) s = elapsed now s"

fun run :: "event list \<Rightarrow> App \<Rightarrow> App" where
  "run [] s = s"
| "run (e # es) s = run es (step e s)"

definition startCalls :: "App \<Rightarrow> nat" where
  "startCalls s = length (filter isStartCall (requests s))"

definition updateCalls :: "App \<Rightarrow> nat" where
  "updateCalls s = length (filter isUpdateCall (requests s))"

definition endCalls :: "App \<Rightarrow> nat" where
  "endCalls s = length (filter isEndCall (requests s))"

text \<open>The session fields as the reset leaves them.\<close>

definition isReset :: "App \<Rightarrow> bool" where
  "isReset s =
     (status s = idle \<and> energyDispensed s = 0 \<and> elapsedSeconds s = 0 \<and>
      transactionId s = None \<and> startTime s = None \<and> chargerState s = initialChargerState)"

text \<open>
  A run of updates of one closure, oldest draw first; the powers the generator
  produces along it; and the dispensed energy before the first update and after each.
\<close>

fun updates :: "string \<Rightarrow> Draws list \<Rightarrow> App \<Rightarrow> App" where
  "updates tid [] s = s"
| "updates tid (d # ds) s = updates tid ds (sendUpdate tid d s)"

fun powers :: "Draws list \<Rightarrow> ChargerState \<Rightarrow> real list" where
  "powers [] prev = []"
| "powers (d # ds) prev = powerW (generateNextState d prev) # powers ds (generateNextState d prev)"

fun energies :: "string \<Rightarrow> Draws list \<Rightarrow> App \<Rightarrow> real list" where
  "energies tid [] s = [energyDispensed s]"
| "energies tid (d # ds) s = energyDispensed s # energies tid ds (sendUpdate tid d s)"

text \<open>Two sample results of the random source, for concrete runs.\<close>

definition zeroDraws :: Draws where
  "zeroDraws = \<lparr>r_soc = 0, r_voltage = 0, r_power = 0, r_temp = 0\<rparr>"

definition halfDraws :: Draws where
  "halfDraws = \<lparr>r_soc = 1 / 2, r_voltage = 1 / 2, r_power = 1 / 2, r_temp = 1 / 2\<rparr>"

text \<open>Whether an event is the settling of the end call number \<open>k\<close>.\<close>

fun settlesEnd :: "nat \<Rightarrow> event \<Rightarrow> bool" where
  "settlesEnd k (EndResolved j) = (j = k)"
| "settlesEnd k (EndRejected j message) = (j = k)"
| "settlesEnd k e = False"

text \<open>
  A running session for concrete runs: a start at time 0 whose call resolved with
  \<open>tid\<close>, the first update drawn from \<open>zeroDraws\<close>; and the charger state that
  first update leaves.
\<close>

definition runningApp :: "string \<Rightarrow> App" where
  "runningApp tid = run [ClickStart 0, StartResolved 0 tid zeroDraws] initialApp"

definition firstState :: ChargerState where
  "firstState = \<lparr>soc = 21, powerW = 45000, voltageV = 380, currentA = Num (2250 / 19), tempC = 20\<rparr>"

text \<open>A running session has a transaction id: the invariant of the reachable states.\<close>

definition runningHasId :: "App \<Rightarrow> bool" where
  "runningHasId s = (status s \<noteq> running \<or> transactionId s \<noteq> None)"

section \<open>The generator in double arithmetic\<close>

text \<open>
  Where a bound is decided by the rounding of the doubles, the generator is also
  given with every operation rounded as the machine rounds it. \<open>fl\<close> rounds a real
  to 53 significant bits, to nearest with ties to even; its exponent is not bounded,
  so it is the rounding of IEEE 754 binary64 for every result whose magnitude lies in
  \<open>[2 powi (-1022), 2 powi 1024)\<close>, and overflow and subnormal numbers are outside it.
\<close>

definition rne :: "real \<Rightarrow> int" where
  "rne x =
     (let f = \<lfloor>x\<rfloor>; d = x - of_int f
      in if d < 1 / 2 then f else if 1 / 2 < d then f + 1 else if even f then f else f + 1)"

definition binade :: "real \<Rightarrow> int" where
  "binade x = \<lfloor>log 2 x\<rfloor>"

definition fl_pos :: "real \<Rightarrow> real" where
  "fl_pos x = of_int (rne (x / 2 powi (binade x - 52))) * 2 powi (binade x - 52)"

definition fl :: "real \<Rightarrow> real" where
  "fl x = (if x = 0 then 0 else if x < 0 then - fl_pos (- x) else fl_pos x)"

text \<open>JavaScript \<^verbatim>\<open>a / b\<close> on doubles, the quotient rounded.\<close>

definition js_div_double :: "real \<Rightarrow> real \<Rightarrow> jsnum" where
  "js_div_double a b =
     (if b \<noteq> 0 then Num (fl (a / b))
      else if 0 < a then Infinity
      else if a < 0 then NegInfinity
      else NaN)"

text \<open>
  \<^verbatim>\<open>generateNextState\<close> (App.tsx, lines 22-43) once more, each arithmetic operation
  followed by its rounding and each decimal literal that is not a double (\<open>0.6\<close>,
  \<open>0.2\<close>, \<open>0.9\<close>) replaced by the double nearest to it. The previous state and the
  random results are doubles in the program; the definition takes any reals.
\<close>

definition generateNextState_double :: "Draws \<Rightarrow> ChargerState \<Rightarrow> ChargerState" where
  "generateNextState_double d prev =
     (let soc' = min TARGET_SOC (fl (fl (soc prev + 1) + fl (r_soc d * 1)));
          voltageV' = fl (380 + fl (r_voltage d * 40));
          socPercent = fl (soc' / 100);
          socFactor = fl (1 - fl (max 0 (fl (socPercent - fl 0.6)) * 1.5));
          maxPower = 50000;
          powerBase = fl (maxPower * max (fl 0.2) socFactor);
          powerW' = fl (powerBase * fl (fl 0.9 + fl (r_power d * fl 0.2)));
          currentA' = js_div_double powerW' voltageV';
          tempC' = fl (tempC prev + fl (r_temp d * 0.5))
      in \<lparr>soc = soc', powerW = powerW', voltageV = voltageV', currentA = currentA', tempC = tempC'\<rparr>)"

text \<open>The taper factor and the noise factor of that body, by name.\<close>

definition taper_double :: "real \<Rightarrow> real" where
  "taper_double soc' = max (fl 0.2) (fl (1 - fl (max 0 (fl (fl (soc' / 100) - fl 0.6)) * 1.5)))"

definition noise_double :: "real \<Rightarrow> real" where
  "noise_double r = fl (fl 0.9 + fl (r * fl 0.2))"

text \<open>
  The doubles nearest to \<open>0.2\<close> and \<open>0.9\<close>, the double their rounded sum rounds to
  (the double nearest to \<open>1.1\<close>), and the double next above \<open>55000\<close>.
\<close>

definition double_02 :: real where
  "double_02 = 7205759403792794 / 2 ^ 55"

definition double_09 :: real where
  "double_09 = 8106479329266893 / 2 ^ 53"

definition double_11 :: real where
  "double_11 = 4953959590107546 / 2 ^ 52"

definition powerW_top :: real where
  "powerW_top = 7559142440960001 / 2 ^ 37"

text \<open>
  The energy increment lines of \<^verbatim>\<open>sendUpdate\<close> (App.tsx, lines 166-170) in double
  arithmetic; the double nearest to \<open>1 / 3600\<close>, and the increment at 9 kW.
\<close>

definition integrate_double :: "real \<Rightarrow> real \<Rightarrow> real \<Rightarrow> real" where
  "integrate_double energyDispensed' powerW' intervalSeconds =
     (let powerKW = fl (powerW' / 1000);
          timeHours = fl (intervalSeconds / 3600);
          energyIncrement = fl (powerKW * timeHours)
      in fl (energyDispensed' + energyIncrement))"

definition hour_double :: real where
  "hour_double = 5124095576030431 / 2 ^ 64"

definition increment_min :: real where
  "increment_min = 5764607523034235 / 2 ^ 61"

text \<open>
  Random results at the upper end of what \<^verbatim>\<open>Math.random()\<close> returns:
  \<open>1 - 2 powi (-52)\<close> for the voltage and for the power.
\<close>

definition topDraws :: Draws where
  "topDraws = \<lparr>r_soc = 0, r_voltage = 1 - 1 / 2 ^ 52, r_power = 1 - 1 / 2 ^ 52, r_temp = 0\<rparr>"

section \<open>The generator, field by field\<close>


lemma voltage_next: "voltageV (generateNextState d prev) = 380 + r_voltage d * 40"
  by (simp add: generateNextState_def Let_def)

lemma power_next:
  "powerW (generateNextState d prev) =
     50000 * max 0.2 (1 - max 0 (soc (generateNextState d prev) / 100 - 0.6) * 1.5)
       * (0.9 + r_power d * 0.2)"
  by (simp add: generateNextState_def Let_def)

lemma current_next:
  "currentA (generateNextState d prev) =
     js_div (powerW (generateNextState d prev)) (voltageV (generateNextState d prev))"
  by (simp add: generateNextState_def Let_def)

lemma voltage_band:
  assumes "unit_draw (r_voltage d)"
  shows "380 \<le> voltageV (generateNextState d prev) \<and> voltageV (generateNextState d prev) < 420"
  using assms by (simp add: voltage_next unit_draw_def)

text \<open>The taper factor and the noise factor, with their ranges.\<close>

lemma taper_noise:
  assumes "unit_draw (r_power d)"
  obtains f n where "0.2 \<le> f" "f \<le> 1" "0.9 \<le> n" "n < 1.1"
    "powerW (generateNextState d prev) = 50000 * f * n"
proof -
  define f where "f = max (0.2::real) (1 - max 0 (soc (generateNextState d prev) / 100 - 0.6) * 1.5)"
  define n where "n = 0.9 + r_power d * 0.2"
  have "0.2 \<le> f" "f \<le> 1" by (auto simp: f_def max_def)
  moreover have "0.9 \<le> n" "n < 1.1" using assms by (auto simp: n_def unit_draw_def)
  moreover have "powerW (generateNextState d prev) = 50000 * f * n"
    by (simp add: power_next f_def n_def)
  ultimately show thesis using that by blast
qed

lemma power_bounds:
  assumes "unit_draw (r_power d)"
  shows "9000 \<le> powerW (generateNextState d prev) \<and> powerW (generateNextState d prev) < 55000"
proof -
  obtain f n :: real where f: "0.2 \<le> f" "f \<le> 1" and n: "0.9 \<le> n" "n < 1.1"
    and p: "powerW (generateNextState d prev) = 50000 * f * n"
    using taper_noise [OF assms] by blast
  have "0.2 * 0.9 \<le> f * n" using f n by (intro mult_mono) auto
  moreover have "f * n < 1 * 1.1" using f n by (intro mult_le_less_imp_less) auto
  ultimately show ?thesis unfolding p by simp
qed



lemma first_state: "generateNextState zeroDraws initialChargerState = firstState"
  by (simp add: generateNextState_def initialChargerState_def zeroDraws_def INITIAL_SOC_def
      TARGET_SOC_def js_div_def Let_def firstState_def)

section \<open>State of charge\<close>



lemma current_finite:
  assumes "unit_draw (r_voltage d)"
  shows "voltageV (generateNextState d prev) \<noteq> 0"
    and "currentA (generateNextState d prev) =
           Num (powerW (generateNextState d prev) / voltageV (generateNextState d prev))"
proof -
  show nz: "voltageV (generateNextState d prev) \<noteq> 0"
    using voltage_band [OF assms, of prev] by simp
  show "currentA (generateNextState d prev) =
           Num (powerW (generateNextState d prev) / voltageV (generateNextState d prev))"
    using nz by (simp add: current_next js_div_def)
qed

lemma sendUpdate_chargerState: "chargerState (sendUpdate tid d s) = generateNextState d (chargerState s)"
  by (simp add: sendUpdate_def Let_def)

lemma sendUpdate_energy:
  "energyDispensed (sendUpdate tid d s) =
     integrate (energyDispensed s) (powerW (generateNextState d (chargerState s))) INTERVAL_SECONDS"
  by (simp add: sendUpdate_def Let_def)

lemma integrate_eq: "integrate e p i = e + (p / 1000) * (i / 3600)"
  by (simp add: integrate_def Let_def)

lemma integrateAll_sum: "integrateAll ps i e = e + (sum_list ps / 1000) * (i / 3600)"
  by (induction ps arbitrary: e) (simp_all add: integrate_eq algebra_simps add_divide_distrib)

lemma updates_energy:
  "energyDispensed (updates tid ds s) =
     integrateAll (powers ds (chargerState s)) INTERVAL_SECONDS (energyDispensed s)"
  by (induction ds arbitrary: s) (simp_all add: sendUpdate_energy sendUpdate_chargerState)

lemma energies_increasing:
  assumes "\<forall>d \<in> set ds. valid_draws d"
  shows "sorted_wrt (<) (energies tid ds s) \<and> (\<forall>x \<in> set (energies tid ds s). energyDispensed s \<le> x)"
  using assms
proof (induction ds arbitrary: s)
  case Nil
  then show ?case by simp
next
  case (Cons d ds)
  let ?t = "sendUpdate tid d s"
  have u: "unit_draw (r_power d)" using Cons.prems by (simp add: valid_draws_def)
  have "0 < powerW (generateNextState d (chargerState s))"
    using power_bounds [OF u, of "chargerState s"] by simp
  then have lt: "energyDispensed s < energyDispensed ?t"
    by (simp add: sendUpdate_energy integrate_eq INTERVAL_SECONDS_def)
  have ih: "sorted_wrt (<) (energies tid ds ?t) \<and> (\<forall>x \<in> set (energies tid ds ?t). energyDispensed ?t \<le> x)"
    using Cons.IH Cons.prems by simp
  show ?case using ih lt by fastforce
qed

section \<open>Rounding to doubles\<close>

lemma rne_bounds: "\<lfloor>x\<rfloor> \<le> rne x" "rne x \<le> \<lfloor>x\<rfloor> + 1"
  by (simp_all add: rne_def Let_def)

lemma rne_of_int [simp]: "rne (of_int n) = n"
  by (simp add: rne_def)

lemma rne_numeral [simp]: "rne (numeral n) = numeral n"
  using rne_of_int [of "numeral n"] by simp

lemma two_powi_pos: "0 < (2::real) powi e"
  by simp

lemma two_powr_int: "(2::real) powr of_int e = 2 powi e"
  by (rule powr_real_of_int') simp_all

lemma rne_mono:
  assumes "x \<le> y"
  shows "rne x \<le> rne y"
proof (cases "\<lfloor>x\<rfloor> = \<lfloor>y\<rfloor>")
  case True
  then show ?thesis using assms by (auto simp: rne_def Let_def)
next
  case False
  then have "\<lfloor>x\<rfloor> + 1 \<le> \<lfloor>y\<rfloor>" using floor_mono [OF assms] by linarith
  then show ?thesis using rne_bounds(2) [of x] rne_bounds(1) [of y] by linarith
qed

lemma binade_bounds:
  assumes "0 < x"
  shows "2 powi binade x \<le> x" and "x < 2 powi (binade x + 1)"
proof -
  have "of_int (binade x) \<le> log 2 x" by (simp add: binade_def)
  then have "2 powr of_int (binade x) \<le> x" using assms by (simp add: le_log_iff)
  then show "2 powi binade x \<le> x" by (simp only: two_powr_int)
  have "log 2 x < of_int (binade x + 1)" by (simp add: binade_def)
  then have "x < 2 powr of_int (binade x + 1)" using assms by (simp only: log_less_iff)
  then show "x < 2 powi (binade x + 1)" by (simp only: two_powr_int)
qed

lemma binade_eq:
  assumes "2 powi e \<le> x" and "x < 2 powi (e + 1)"
  shows "binade x = e"
proof -
  have pos: "0 < x" using assms(1) two_powi_pos [of e] by linarith
  have "2 powr of_int e \<le> x" using assms(1) by (simp only: two_powr_int)
  then have a: "of_int e \<le> log 2 x" using pos by (simp add: le_log_iff)
  have "x < 2 powr of_int (e + 1)" using assms(2) by (simp only: two_powr_int)
  then have "log 2 x < of_int (e + 1)" using pos by (simp only: log_less_iff)
  then have b: "log 2 x < of_int e + 1" by simp
  show ?thesis unfolding binade_def using a b by (simp add: floor_unique)
qed

lemma binade_mono:
  assumes "0 < x" and "x \<le> y"
  shows "binade x \<le> binade y"
  unfolding binade_def using assms by (intro floor_mono) simp

lemma fl_eval:
  assumes "2 powi e \<le> x" and "x < 2 powi (e + 1)"
  shows "fl x = of_int (rne (x / 2 powi (e - 52))) * 2 powi (e - 52)"
proof -
  have pos: "0 < x" using assms(1) two_powi_pos [of e] by linarith
  show ?thesis using pos binade_eq [OF assms] by (simp add: fl_def fl_pos_def)
qed

lemma fl_pos_bounds:
  assumes "0 < x"
  shows "2 powi binade x \<le> fl_pos x" and "fl_pos x \<le> 2 powi (binade x + 1)"
proof -
  let ?e = "binade x"
  let ?u = "2 powi (?e - 52) :: real"
  have u: "0 < ?u" by simp
  have e: "2 powi ?e = 2 ^ 52 * ?u" "2 powi (?e + 1) = 2 ^ 53 * ?u"
    by (simp_all add: power_int_diff power_int_add)
  have lo: "of_int (2 ^ 52) \<le> x / ?u"
    using binade_bounds(1) [OF assms] u by (simp add: e pos_le_divide_eq)
  have hi: "x / ?u \<le> of_int (2 ^ 53)"
    using binade_bounds(2) [OF assms] u by (simp add: e pos_divide_le_eq)
  have "2 ^ 52 \<le> rne (x / ?u)" using rne_mono [OF lo] by simp
  then have "real_of_int (2 ^ 52) \<le> of_int (rne (x / ?u))" by (simp only: of_int_le_iff)
  then have "(2 ^ 52 :: real) \<le> of_int (rne (x / ?u))" by simp
  then have "2 ^ 52 * ?u \<le> of_int (rne (x / ?u)) * ?u" using u by simp
  then show "2 powi ?e \<le> fl_pos x" by (simp add: e fl_pos_def)
  have "rne (x / ?u) \<le> 2 ^ 53" using rne_mono [OF hi] by simp
  then have "of_int (rne (x / ?u)) \<le> real_of_int (2 ^ 53)" by (simp only: of_int_le_iff)
  then have "of_int (rne (x / ?u)) \<le> (2 ^ 53 :: real)" by simp
  then have "of_int (rne (x / ?u)) * ?u \<le> 2 ^ 53 * ?u" using u by simp
  then show "fl_pos x \<le> 2 powi (?e + 1)" by (simp add: e fl_pos_def)
qed

lemma fl_pos_mono:
  assumes "0 < x" and "x \<le> y"
  shows "fl_pos x \<le> fl_pos y"
proof (cases "binade x = binade y")
  case True
  have "x / 2 powi (binade y - 52) \<le> y / 2 powi (binade y - 52)"
    using assms(2) by (simp add: divide_right_mono)
  then have "rne (x / 2 powi (binade y - 52)) \<le> rne (y / 2 powi (binade y - 52))"
    by (rule rne_mono)
  then show ?thesis by (simp add: fl_pos_def True)
next
  case False
  have y: "0 < y" using assms by linarith
  have "binade x + 1 \<le> binade y" using binade_mono [OF assms] False by linarith
  then have "(2::real) powi (binade x + 1) \<le> 2 powi binade y"
    by (intro power_int_increasing) simp_all
  then show ?thesis
    using fl_pos_bounds(2) [OF assms(1)] fl_pos_bounds(1) [OF y] by linarith
qed

lemma fl_pos_pos: "0 < x \<Longrightarrow> 0 < fl_pos x"
  using fl_pos_bounds(1) [of x] two_powi_pos [of "binade x"] by linarith

lemma fl_nonneg: "0 \<le> x \<Longrightarrow> 0 \<le> fl x"
  using fl_pos_pos [of x] by (cases "x = 0") (auto simp: fl_def)

lemma fl_nonpos: "x \<le> 0 \<Longrightarrow> fl x \<le> 0"
  using fl_pos_pos [of "- x"] by (cases "x = 0") (auto simp: fl_def)

lemma fl_mono:
  assumes "0 \<le> x" and "x \<le> y"
  shows "fl x \<le> fl y"
proof (cases "x = 0")
  case True
  then show ?thesis using fl_nonneg [of y] assms by (simp add: fl_def)
next
  case False
  then have "0 < x" using assms by simp
  then show ?thesis using fl_pos_mono [of x y] assms by (simp add: fl_def)
qed


lemma fl_mono_all:
  assumes "x \<le> y"
  shows "fl x \<le> fl y"
proof (cases "0 \<le> x")
  case True
  then show ?thesis using fl_mono assms by simp
next
  case False
  then have x: "x < 0" by simp
  show ?thesis
  proof (cases "0 \<le> y")
    case True
    then show ?thesis using fl_nonneg [of y] fl_nonpos [of x] x by linarith
  next
    case False
    then have "0 < - y" and "- y \<le> - x" using assms by simp_all
    then have "fl_pos (- y) \<le> fl_pos (- x)" by (rule fl_pos_mono)
    then show ?thesis using x False by (simp add: fl_def)
  qed
qed

lemma fl_0 [simp]: "fl 0 = 0"
  by (simp add: fl_def)

text \<open>The constants of the power line, evaluated.\<close>

lemma fl_02: "fl 0.2 = double_02"
  using fl_eval [of "-3" "0.2"] by (simp add: rne_def power_int_minus_divide double_02_def)

lemma fl_09: "fl 0.9 = double_09"
  using fl_eval [of "-1" "0.9"] by (simp add: rne_def power_int_minus_divide double_09_def)

lemma fl_double_02: "fl double_02 = double_02"
  using fl_eval [of "-3" double_02] by (simp add: rne_def power_int_minus_divide double_02_def)

lemma fl_double_09: "fl double_09 = double_09"
  using fl_eval [of "-1" double_09] by (simp add: rne_def power_int_minus_divide double_09_def)

lemma fl_double_11: "fl (double_09 + double_02) = double_11"
  using fl_eval [of 0 "double_09 + double_02"] by (simp add: rne_def power_int_minus_divide double_02_def double_09_def double_11_def)

lemma fl_1: "fl 1 = 1"
  using fl_eval [of 0 1] by (simp add: power_int_minus_divide)

lemma fl_50000: "fl 50000 = 50000"
  using fl_eval [of 15 50000] by (simp add: rne_def power_int_minus_divide)

lemma fl_10000: "fl (50000 * double_02) = 10000"
  using fl_eval [of 13 "50000 * double_02"] by (simp add: rne_def power_int_minus_divide double_02_def)

lemma fl_9000: "fl (10000 * double_09) = 9000"
  using fl_eval [of 13 "10000 * double_09"] by (simp add: rne_def power_int_minus_divide double_09_def)

lemma fl_powerW_top: "fl (50000 * double_11) = powerW_top"
  using fl_eval [of 15 "50000 * double_11"] by (simp add: rne_def power_int_minus_divide double_11_def powerW_top_def)

lemma powerW_top_gt: "55000 < powerW_top" "powerW_top < 55000.00000000001"
  by (simp_all add: powerW_top_def)

text \<open>Power and voltage of the generator in double arithmetic.\<close>

lemma power_double:
  "powerW (generateNextState_double d prev) =
     fl (fl (50000 * max (fl 0.2)
              (fl (1 - fl (max 0 (fl (fl (soc (generateNextState_double d prev) / 100) - fl 0.6)) * 1.5))))
         * fl (fl 0.9 + fl (r_power d * fl 0.2)))"
  by (simp add: generateNextState_double_def Let_def)

lemma soc_double_le: "soc (generateNextState_double d prev) \<le> 90"
  by (simp add: generateNextState_double_def Let_def TARGET_SOC_def)

lemma noise_double:
  assumes "unit_draw r"
  shows "double_09 \<le> fl (fl 0.9 + fl (r * fl 0.2))" and "fl (fl 0.9 + fl (r * fl 0.2)) \<le> double_11"
proof -
  have r: "0 \<le> r" "r < 1" using assms by (simp_all add: unit_draw_def)
  have c: "0 \<le> double_02" by (simp add: double_02_def)
  have "0 \<le> r * double_02" using r c by simp
  then have lo: "0 \<le> fl (r * double_02)" by (rule fl_nonneg)
  have "r * double_02 \<le> double_02" using r c by (simp add: mult_left_le_one_le)
  then have hi: "fl (r * double_02) \<le> double_02" using fl_mono_all [of "r * double_02" double_02] by (simp add: fl_double_02)
  have "fl double_09 \<le> fl (double_09 + fl (r * double_02))" using lo by (intro fl_mono_all) simp
  then show "double_09 \<le> fl (fl 0.9 + fl (r * fl 0.2))" by (simp only: fl_02 fl_09 fl_double_09)
  have "fl (double_09 + fl (r * double_02)) \<le> fl (double_09 + double_02)" using hi by (intro fl_mono_all) simp
  then show "fl (fl 0.9 + fl (r * fl 0.2)) \<le> double_11" by (simp only: fl_02 fl_09 fl_double_11)
qed

lemma taper_double:
  "double_02 \<le> max (fl 0.2) (fl (1 - fl (max 0 x * 1.5)))"
  "max (fl 0.2) (fl (1 - fl (max 0 x * 1.5))) \<le> 1"
proof -
  show "double_02 \<le> max (fl 0.2) (fl (1 - fl (max 0 x * 1.5)))" unfolding fl_02 by simp
  have "0 \<le> max 0 x * 1.5" by simp
  then have "0 \<le> fl (max 0 x * 1.5)" by (rule fl_nonneg)
  then have "fl (1 - fl (max 0 x * 1.5)) \<le> fl 1" by (intro fl_mono_all) simp
  moreover have "double_02 \<le> 1" by (simp add: double_02_def)
  ultimately show "max (fl 0.2) (fl (1 - fl (max 0 x * 1.5))) \<le> 1" unfolding fl_02 fl_1 by simp
qed

lemma power_double_bounds:
  assumes "unit_draw (r_power d)"
  shows "9000 \<le> powerW (generateNextState_double d prev)"
    and "powerW (generateNextState_double d prev) \<le> powerW_top"
proof -
  define t where "t = max (fl 0.2)
     (fl (1 - fl (max 0 (fl (fl (soc (generateNextState_double d prev) / 100) - fl 0.6)) * 1.5)))"
  define n where "n = fl (fl 0.9 + fl (r_power d * fl 0.2))"
  have p: "powerW (generateNextState_double d prev) = fl (fl (50000 * t) * n)"
    unfolding t_def n_def by (rule power_double)
  have t: "double_02 \<le> t" "t \<le> 1" unfolding t_def by (rule taper_double)+
  have n: "double_09 \<le> n" "n \<le> double_11" unfolding n_def using noise_double [OF assms] by simp_all
  have c: "0 \<le> double_02" "0 \<le> double_09" by (simp_all add: double_02_def double_09_def)
  have "fl (50000 * double_02) \<le> fl (50000 * t)" using t by (intro fl_mono_all) simp
  then have b1: "10000 \<le> fl (50000 * t)" by (simp add: fl_10000)
  have "fl (50000 * t) \<le> fl (50000 * 1)" using t by (intro fl_mono_all) simp
  then have b2: "fl (50000 * t) \<le> 50000" by (simp add: fl_50000)
  have "10000 * double_09 \<le> fl (50000 * t) * n" using b1 n c by (intro mult_mono) simp_all
  then have "fl (10000 * double_09) \<le> fl (fl (50000 * t) * n)" by (rule fl_mono_all)
  then show "9000 \<le> powerW (generateNextState_double d prev)" by (simp add: p fl_9000)
  have "0 \<le> fl (50000 * t)" using b1 by simp
  then have "fl (50000 * t) * n \<le> 50000 * double_11" using b2 n c by (intro mult_mono) simp_all
  then have "fl (fl (50000 * t) * n) \<le> fl (50000 * double_11)" by (rule fl_mono_all)
  then show "powerW (generateNextState_double d prev) \<le> powerW_top" by (simp add: p fl_powerW_top)
qed

lemma fl_21: "fl 21 = 21"
  using fl_eval [of 4 21] by (simp add: power_int_minus_divide)

lemma fl_top: "fl ((1 - 1 / 2 ^ 52) * double_02) = 7205759403792792 / 2 ^ 55"
  using fl_eval [of "-3" "(1 - 1 / 2 ^ 52) * double_02"] by (simp add: rne_def power_int_minus_divide double_02_def)

lemma fl_top_sum: "fl (double_09 + 7205759403792792 / 2 ^ 55) = double_11"
  using fl_eval [of 0 "double_09 + 7205759403792792 / 2 ^ 55"]
  by (simp add: rne_def power_int_minus_divide double_09_def double_11_def)

lemma soc_double_first: "soc (generateNextState_double topDraws initialChargerState) = 21"
  by (simp add: generateNextState_double_def Let_def topDraws_def initialChargerState_def
      INITIAL_SOC_def TARGET_SOC_def fl_21)

lemma power_double_top: "powerW (generateNextState_double topDraws initialChargerState) = powerW_top"
proof -
  have "fl (21 / 100) \<le> fl 0.6" by (intro fl_mono_all) simp
  then have "fl (fl (21 / 100) - fl 0.6) \<le> 0" by (intro fl_nonpos) simp
  then have m: "max 0 (fl (fl (21 / 100) - fl 0.6)) = 0" by simp
  have c: "double_02 \<le> 1" by (simp add: double_02_def)
  have t: "max (fl 0.2) (fl (1 - fl (max 0 (fl (fl (21 / 100) - fl 0.6)) * 1.5))) = 1"
    unfolding m fl_02 using c by (simp add: fl_1)
  have n: "fl (fl 0.9 + fl (r_power topDraws * fl 0.2)) = double_11"
    by (simp only: fl_02 fl_09 topDraws_def Draws.simps fl_top fl_top_sum)
  show ?thesis
    unfolding power_double soc_double_first t n by (simp add: fl_50000 fl_powerW_top)
qed



lemma power_double_factors:
  "powerW (generateNextState_double d prev) =
     fl (fl (50000 * taper_double (soc (generateNextState_double d prev))) * noise_double (r_power d))"
  unfolding taper_double_def noise_double_def by (rule power_double)

lemma fl_45000: "fl (50000 * double_09) = 45000"
  using fl_eval [of 15 "50000 * double_09"] by (simp add: rne_def power_int_minus_divide double_09_def)

lemma power_double_zero: "powerW (generateNextState_double zeroDraws initialChargerState) = 45000"
proof -
  have s: "soc (generateNextState_double zeroDraws initialChargerState) = 21"
    by (simp add: generateNextState_double_def Let_def zeroDraws_def initialChargerState_def
        INITIAL_SOC_def TARGET_SOC_def fl_21)
  have "fl (21 / 100) \<le> fl 0.6" by (intro fl_mono_all) simp
  then have "fl (fl (21 / 100) - fl 0.6) \<le> 0" by (intro fl_nonpos) simp
  then have m: "max 0 (fl (fl (21 / 100) - fl 0.6)) = 0" by simp
  have c: "double_02 \<le> 1" by (simp add: double_02_def)
  have t: "max (fl 0.2) (fl (1 - fl (max 0 (fl (fl (21 / 100) - fl 0.6)) * 1.5))) = 1"
    unfolding m fl_02 using c by (simp add: fl_1)
  have n: "fl (fl 0.9 + fl (r_power zeroDraws * fl 0.2)) = double_09"
    by (simp add: zeroDraws_def fl_09 fl_double_09)
  show ?thesis
    unfolding power_double s t n by (simp add: fl_50000 fl_45000)
qed


text \<open>The energy step in double arithmetic.\<close>

lemma rne_ge: "x - 1 / 2 \<le> of_int (rne x)"
  by (simp add: rne_def Let_def) linarith

lemma fl_pos_ge:
  assumes "0 < x"
  shows "x * (1 - 1 / 2 ^ 53) \<le> fl_pos x"
proof -
  let ?u = "2 powi (binade x - 52) :: real"
  have u: "0 < ?u" by simp
  have "2 powi binade x = 2 ^ 52 * ?u" by (simp add: power_int_diff)
  then have "2 ^ 52 * ?u \<le> x" using binade_bounds(1) [OF assms] by simp
  then have h: "?u / 2 \<le> x / 2 ^ 53" by simp
  have "(x / ?u - 1 / 2) * ?u \<le> of_int (rne (x / ?u)) * ?u"
    using rne_ge [of "x / ?u"] u by (intro mult_right_mono) simp_all
  then have "x - ?u / 2 \<le> fl_pos x" using u by (simp add: fl_pos_def algebra_simps)
  then show ?thesis using h by (simp add: algebra_simps)
qed

lemma fl_ge:
  assumes "0 \<le> x"
  shows "x * (1 - 1 / 2 ^ 53) \<le> fl x"
  using fl_pos_ge [of x] assms by (cases "x = 0") (simp_all add: fl_def)

lemma fl_hour: "fl (1 / 3600) = hour_double"
  using fl_eval [of "-12" "1 / 3600"] by (simp add: rne_def power_int_minus_divide hour_double_def)

lemma fl_9: "fl 9 = 9"
  using fl_eval [of 3 9] by (simp add: power_int_minus_divide)

lemma fl_increment_min: "fl (9 * hour_double) = increment_min"
  using fl_eval [of "-9" "9 * hour_double"]
  by (simp add: rne_def power_int_minus_divide hour_double_def increment_min_def)

lemma integrate_double_grows:
  assumes "9000 \<le> p" and "0 \<le> e" and "e \<le> 10 ^ 12"
  shows "e < integrate_double e p 1"
proof -
  define inc where "inc = fl (fl (p / 1000) * fl (1 / 3600))"
  have "fl 9 \<le> fl (p / 1000)" using assms(1) by (intro fl_mono_all) simp
  then have k: "9 \<le> fl (p / 1000)" by (simp add: fl_9)
  have h: "0 \<le> hour_double" by (simp add: hour_double_def)
  have "9 * hour_double \<le> fl (p / 1000) * hour_double" using k h by (intro mult_right_mono)
  then have "fl (9 * hour_double) \<le> fl (fl (p / 1000) * hour_double)" by (rule fl_mono_all)
  then have i: "increment_min \<le> inc" by (simp add: inc_def fl_hour fl_increment_min)
  have pos: "0 \<le> e + inc" using assms(2) i by (simp add: increment_min_def)
  have "(e + increment_min) * (1 - 1 / 2 ^ 53) \<le> (e + inc) * (1 - 1 / 2 ^ 53)"
    using i by (intro mult_right_mono) simp_all
  also have "\<dots> \<le> fl (e + inc)" using fl_ge [OF pos] .
  finally have a: "(e + increment_min) * (1 - 1 / 2 ^ 53) \<le> fl (e + inc)" .
  have "e < (e + increment_min) * (1 - 1 / 2 ^ 53)"
    using assms(3) by (simp add: increment_min_def algebra_simps)
  then have "e < fl (e + inc)" using a by linarith
  then show ?thesis by (simp add: integrate_double_def inc_def Let_def)
qed

section \<open>Derived current\<close>

text \<open>
  Claim C8. In every state the generator produces, the current is the quotient of that
  state's power by that state's voltage: it is the result of the division, the divisor
  is not zero, so the quotient is a finite number, and no random result enters it
  other than through power and voltage. The same holds for the charger state every
  update leaves in the component.
\<close>

theorem generateNextState_current:
  assumes "valid_draws d"
  shows "currentA (generateNextState d prev) =
           js_div (powerW (generateNextState d prev)) (voltageV (generateNextState d prev))
       \<and> voltageV (generateNextState d prev) \<noteq> 0
       \<and> currentA (generateNextState d prev) =
           Num (powerW (generateNextState d prev) / voltageV (generateNextState d prev))
       \<and> currentA (chargerState (sendUpdate tid d s)) =
           Num (powerW (chargerState (sendUpdate tid d s)) / voltageV (chargerState (sendUpdate tid d s)))"
proof -
  have u: "unit_draw (r_voltage d)" using assms by (simp add: valid_draws_def)
  show ?thesis
    using current_finite [OF u] by (simp add: current_next sendUpdate_chargerState)
qed

theorem generateNextState_current_witness:
  "valid_draws halfDraws
   \<and> powerW (generateNextState halfDraws initialChargerState) = 50000
   \<and> voltageV (generateNextState halfDraws initialChargerState) = 400
   \<and> currentA (generateNextState halfDraws initialChargerState) = Num 125"
  using generateNextState_current [of halfDraws initialChargerState]
  by (simp add: initialChargerState_def INITIAL_SOC_def halfDraws_def valid_draws_def unit_draw_def
      generateNextState_def TARGET_SOC_def Let_def)

section \<open>Power and energy\<close>

text \<open>
  Claim C10, as amended. For every previous state and every random result in
  \<open>[0, 1)\<close> the generator's power in double arithmetic is at least 9000 and at most
  \<open>55000 + 2 powi (-37)\<close>, the double next above 55000: it is the rounded product of
  50000, a taper factor between the double \<open>0.2\<close> and 1, and a noise factor between
  the doubles \<open>0.9\<close> and \<open>1.1\<close>. So the power is positive, and the energy step in
  double arithmetic at that power raises every accumulated energy from 0 up to
  \<open>10 ^ 12\<close> kWh. Over the reals the power is at least 9000 as well, the energy
  increment of every update is positive, and the dispensed energy grows strictly with
  every update and along every run of updates.
\<close>

theorem generateNextState_power:
  assumes "valid_draws d" and "\<forall>d' \<in> set ds. valid_draws d'"
  shows "9000 \<le> powerW (generateNextState_double d prev)
       \<and> powerW (generateNextState_double d prev) \<le> 55000 + 1 / 2 ^ 37
       \<and> powerW (generateNextState_double d prev) =
           fl (fl (50000 * taper_double (soc (generateNextState_double d prev))) * noise_double (r_power d))
       \<and> fl 0.2 \<le> taper_double (soc (generateNextState_double d prev))
       \<and> taper_double (soc (generateNextState_double d prev)) \<le> 1
       \<and> fl 0.9 \<le> noise_double (r_power d)
       \<and> noise_double (r_power d) \<le> fl (fl 0.9 + fl 0.2)
       \<and> 0 < powerW (generateNextState_double d prev)
       \<and> 9000 \<le> powerW (generateNextState d prev)
       \<and> (0 \<le> e \<and> e \<le> 10 ^ 12 \<longrightarrow>
            e < integrate_double e (powerW (generateNextState_double d prev)) INTERVAL_SECONDS)
       \<and> 0 < energyDispensed (sendUpdate tid d s) - energyDispensed s
       \<and> energyDispensed s < energyDispensed (sendUpdate tid d s)
       \<and> sorted_wrt (<) (energies tid ds s)"
proof -
  have u: "unit_draw (r_power d)" using assms(1) by (simp add: valid_draws_def)
  have lo: "9000 \<le> powerW (generateNextState_double d prev)"
    and hi: "powerW (generateNextState_double d prev) \<le> 55000 + 1 / 2 ^ 37"
    using power_double_bounds [OF u, of prev] by (simp_all add: powerW_top_def)
  have t: "fl 0.2 \<le> taper_double (soc (generateNextState_double d prev))"
    "taper_double (soc (generateNextState_double d prev)) \<le> 1"
    unfolding taper_double_def using taper_double by (simp_all only: fl_02)
  have n: "fl 0.9 \<le> noise_double (r_power d)" "noise_double (r_power d) \<le> fl (fl 0.9 + fl 0.2)"
    unfolding noise_double_def using noise_double [OF u] by (simp_all only: fl_02 fl_09 fl_double_11)
  have r: "9000 \<le> powerW (generateNextState d prev)"
    using power_bounds [OF u] by simp
  have "0 < powerW (generateNextState d (chargerState s))"
    using power_bounds [OF u, of "chargerState s"] by simp
  then have e: "energyDispensed s < energyDispensed (sendUpdate tid d s)"
    by (simp add: sendUpdate_energy integrate_eq INTERVAL_SECONDS_def)
  have m: "sorted_wrt (<) (energies tid ds s)"
    using energies_increasing [OF assms(2)] by blast
  have p: "0 < powerW (generateNextState_double d prev)" using lo by linarith
  have e': "0 < energyDispensed (sendUpdate tid d s) - energyDispensed s" using e by simp
  have g: "0 \<le> e \<and> e \<le> 10 ^ 12 \<longrightarrow>
            e < integrate_double e (powerW (generateNextState_double d prev)) INTERVAL_SECONDS"
    using integrate_double_grows [OF lo] by (simp add: INTERVAL_SECONDS_def)
  show ?thesis using lo hi power_double_factors [of d prev] t n p r g e e' m by blast
qed

theorem generateNextState_power_witness:
  "valid_draws zeroDraws
   \<and> powerW (generateNextState_double zeroDraws initialChargerState) = 45000
   \<and> 0 < integrate_double 0 45000 INTERVAL_SECONDS
   \<and> powerW (generateNextState zeroDraws initialChargerState) = 45000
   \<and> energies ''tx'' [zeroDraws, zeroDraws] initialApp = [0, 1 / 80, 1 / 40]"
proof -
  have v: "valid_draws zeroDraws" and vs: "\<forall>d' \<in> set [zeroDraws, zeroDraws]. valid_draws d'"
    by (simp_all add: valid_draws_def unit_draw_def zeroDraws_def)
  have a: "powerW (generateNextState zeroDraws initialChargerState) = 45000"
    by (simp add: first_state firstState_def)
  have b: "energies ''tx'' [zeroDraws, zeroDraws] initialApp = [0, 1 / 80, 1 / 40]"
    by (simp add: initialApp_def initialChargerState_def INITIAL_SOC_def zeroDraws_def
      generateNextState_def TARGET_SOC_def Let_def sendUpdate_def integrate_def INTERVAL_SECONDS_def)
  note t = generateNextState_power [OF v vs, of initialChargerState 0 "''tx''" initialApp]
  show ?thesis using t v a b power_double_zero by simp
qed

text \<open>
  Claim C10 as stated fails at the largest noise draw: from the initial state, with
  the random result \<open>1 - 2 powi (-52)\<close> for the power, the noise factor rounds to the
  double \<open>1.1\<close>, which is above \<open>1.1\<close>, and the power is \<open>55000 + 2 powi (-37)\<close>,
  not below 55000.
\<close>

theorem power_double_counterexample:
  "valid_draws topDraws
   \<and> r_power topDraws = 1 - 1 / 2 ^ 52
   \<and> powerW (generateNextState_double topDraws initialChargerState) = 55000 + 1 / 2 ^ 37
   \<and> \<not> powerW (generateNextState_double topDraws initialChargerState) < 55000"
  using power_double_top by (simp add: powerW_top_def topDraws_def valid_draws_def unit_draw_def)

text \<open>
  Claim C9. One integration step adds \<open>(powerW / 1000) * (intervalSeconds / 3600)\<close> to
  the accumulated energy; \<open>n\<close> steps at constant power \<open>p\<close> and interval \<open>i\<close> from zero
  give \<open>n * (p / 1000) * (i / 3600)\<close>; every update of the component is one such
  step at the power just generated and the configured interval, and a run of updates
  is the run of these steps over the generated powers. Over the reals the equalities
  are exact.
\<close>

theorem integrate_constant_power:
  "integrate e p i = e + (p / 1000) * (i / 3600)
   \<and> integrateAll (replicate n p) i 0 = of_nat n * (p / 1000) * (i / 3600)
   \<and> energyDispensed (sendUpdate tid d s) =
       integrate (energyDispensed s) (powerW (chargerState (sendUpdate tid d s))) INTERVAL_SECONDS
   \<and> energyDispensed (updates tid ds s) =
       integrateAll (powers ds (chargerState s)) INTERVAL_SECONDS (energyDispensed s)"
  by (simp add: integrate_eq integrateAll_sum sum_list_replicate sendUpdate_energy
      sendUpdate_chargerState updates_energy)

section \<open>The voltage band\<close>



section \<open>The state machine, step by step\<close>

lemma run_append: "run (es @ fs) s = run fs (run es s)"
  by (induction es arbitrary: s) simp_all

lemma isReset_resetState: "isReset (resetState s)"
  by (simp add: isReset_def resetState_def)

lemma end_settles:
  assumes "k \<in> set (pendingEnd s)"
  shows "isReset (step (EndResolved k) s)" and "isReset (step (EndRejected k m) s)"
  using assms by (simp_all add: isReset_resetState)

lemma pendingEnd_sendUpdate: "pendingEnd (sendUpdate tid d s) = pendingEnd s"
  by (simp add: sendUpdate_def Let_def)

lemma pendingEnd_stopSession: "set (pendingEnd s) \<subseteq> set (pendingEnd (stopSession s))"
  by (auto simp: stopSession_def resetState_def Let_def split: option.splits)

lemma pendingEnd_kept:
  assumes "k \<in> set (pendingEnd s)" and "\<not> settlesEnd k e"
  shows "k \<in> set (pendingEnd (step e s))"
proof (cases e)
  case ClickStop
  then show ?thesis using assms pendingEnd_stopSession [of s] by auto
next
  case (StartResolved j tid d)
  then show ?thesis using assms
    by (simp add: startResolved_def pendingEnd_sendUpdate Let_def split: option.splits)
next
  case (IntervalFired h d)
  then show ?thesis using assms by (simp add: pendingEnd_sendUpdate split: option.splits)
qed (use assms in \<open>auto simp: startSession_def startRejected_def updateRejected_def resetState_def
      elapsed_def Let_def split: option.splits\<close>)

lemma pendingEnd_kept_run:
  assumes "k \<in> set (pendingEnd s)" and "\<forall>e \<in> set es. \<not> settlesEnd k e"
  shows "k \<in> set (pendingEnd (run es s))"
  using assms by (induction es arbitrary: s) (simp_all add: pendingEnd_kept)

lemma stop_issues_end:
  assumes "status s = running" and "transactionId s = Some tid" and "tid \<noteq> []"
  shows "requests (step ClickStop s) = requests s @ [endCharge tid]"
    and "pendingEnd (step ClickStop s) = pendingEnd s @ [length (requests s)]"
    and "status (step ClickStop s) = stopping"
    and "intervalRef (step ClickStop s) = None"
  using assms by (simp_all add: stopEnabled_def stopSession_def Let_def split: option.splits)

lemma stop_without_id:
  assumes "status s = running" and "transactionId s = None \<or> transactionId s = Some []"
  shows "requests (step ClickStop s) = requests s" and "isReset (step ClickStop s)"
  using assms
  by (auto simp: stopEnabled_def stopSession_def resetState_def isReset_def Let_def
      split: option.splits)

lemma isEndCall_endCharge: "isEndCall (endCharge tid)"
  by (simp add: isEndCall_def endCharge_def)

lemma pendingUpdate_stop:
  assumes "status s = running" and "transactionId s = Some tid" and "tid \<noteq> []"
  shows "pendingUpdate (step ClickStop s) = pendingUpdate s"
  using assms by (simp add: stopEnabled_def stopSession_def Let_def split: option.splits)

lemma end_resolved_fields:
  assumes "k \<in> set (pendingEnd s)"
  shows "pendingUpdate (step (EndResolved k) s) = pendingUpdate s"
    and "requests (step (EndResolved k) s) = requests s"
    and "timers (step (EndResolved k) s) = timers s"
    and "intervalRef (step (EndResolved k) s) = intervalRef s"
  using assms by (simp_all add: resetState_def)

lemma update_rejected_step:
  assumes "k \<in> set (pendingUpdate s)"
  shows "step (UpdateRejected k m) s =
           s\<lparr>pendingUpdate := removeAll k (pendingUpdate s), errorMessage := m, status := error\<rparr>"
  using assms by (simp add: updateRejected_def)

lemma requests_sendUpdate:
  "filter isStartCall (requests (sendUpdate tid d s)) = filter isStartCall (requests s)"
  by (simp add: sendUpdate_def Let_def isStartCall_def sendChargeUpdate_def)

lemma requests_stopSession:
  "filter isStartCall (requests (stopSession s)) = filter isStartCall (requests s)"
  by (simp add: stopSession_def resetState_def Let_def isStartCall_def endCharge_def
      split: option.splits)

lemma startCalls_other:
  assumes "\<not> startEnabled s"
  shows "startCalls (step e s) = startCalls s"
proof (cases e)
  case (ClickStart now)
  then show ?thesis using assms by simp
next
  case ClickStop
  then show ?thesis by (simp add: startCalls_def requests_stopSession)
next
  case (StartResolved j tid d)
  then show ?thesis
    by (simp add: startCalls_def startResolved_def requests_sendUpdate Let_def split: option.splits)
next
  case (IntervalFired h d)
  then show ?thesis by (simp add: startCalls_def requests_sendUpdate split: option.splits)
qed (simp_all add: startCalls_def startRejected_def updateRejected_def resetState_def elapsed_def
      split: option.splits)

lemma end_settle_requests:
  "requests (step (EndResolved k) s) = requests s" "requests (step (EndRejected k m) s) = requests s"
  by (simp_all add: resetState_def)

lemma start_issues_call:
  assumes "startEnabled s"
  shows "requests (step (ClickStart now) s) = requests s @ [startCharge now 20]"
    and "status (step (ClickStart now) s) = starting"
    and "errorMessage (step (ClickStart now) s) = None"
    and "pendingStart (step (ClickStart now) s) = pendingStart s @ [(length (requests s), now)]"
proof -
  have "toFixed2 INITIAL_SOC = 20" by (simp add: toFixed2_def INITIAL_SOC_def)
  then show "requests (step (ClickStart now) s) = requests s @ [startCharge now 20]"
    and "status (step (ClickStart now) s) = starting"
    and "errorMessage (step (ClickStart now) s) = None"
    and "pendingStart (step (ClickStart now) s) = pendingStart s @ [(length (requests s), now)]"
    using assms by (simp_all add: startSession_def Let_def)
qed

lemma isStartCall_startCharge: "isStartCall (startCharge t x)"
  by (simp add: isStartCall_def startCharge_def)

text \<open>
  In every state the component can reach from its initial one, a running session has
  a transaction id, so the only running sessions without an end call are those with
  the empty id.
\<close>

lemma runningHasId_step:
  assumes "runningHasId s"
  shows "runningHasId (step e s)"
proof (cases e)
  case (StartResolved j tid d)
  then show ?thesis using assms
    by (simp add: runningHasId_def startResolved_def sendUpdate_def Let_def split: option.splits)
next
  case (IntervalFired h d)
  then show ?thesis using assms
    by (simp add: runningHasId_def sendUpdate_def Let_def split: option.splits)
next
  case ClickStop
  then show ?thesis using assms
    by (simp add: runningHasId_def stopSession_def resetState_def Let_def split: option.splits)
qed (use assms in \<open>auto simp: runningHasId_def startSession_def startRejected_def
      updateRejected_def resetState_def elapsed_def Let_def split: option.splits\<close>)

lemma runningHasId_run: "runningHasId s \<Longrightarrow> runningHasId (run es s)"
  by (induction es arbitrary: s) (simp_all add: runningHasId_step)

lemma running_has_transaction:
  assumes "status (run es initialApp) = running"
  shows "\<exists>tid. transactionId (run es initialApp) = Some tid"
proof -
  have "runningHasId initialApp" by (simp add: runningHasId_def initialApp_def)
  then have "runningHasId (run es initialApp)" by (rule runningHasId_run)
  then show ?thesis using assms by (auto simp: runningHasId_def)
qed

text \<open>Concrete states, computed once.\<close>

lemma runningApp_eval:
  "status (runningApp tid) = running" "transactionId (runningApp tid) = Some tid"
  "map endpoint (requests (runningApp tid)) = (if tid \<noteq> [] then [start_charge, charge_update tid] else [start_charge])"
  "pendingUpdate (runningApp tid) = (if tid \<noteq> [] then [1] else [])"
  "pendingEnd (runningApp tid) = []" "pendingStart (runningApp tid) = []"
  "timers (runningApp tid) = [(0, tid)]" "intervalRef (runningApp tid) = Some 0"
  by (simp_all add: runningApp_def initialApp_def startEnabled_def startSession_def startResolved_def
      sendUpdate_def Let_def startCharge_def sendChargeUpdate_def)

lemma second_soc: "soc (generateNextState halfDraws firstState) = 45 / 2"
  by (simp add: generateNextState_def firstState_def halfDraws_def TARGET_SOC_def Let_def)

lemma first_payload:
  "mkPayload firstState =
     \<lparr>sample_time_increment = 1, soc_field = 21, temp_c = 20, avg_power_w = 45000,
      avg_current_a = Num (5921 / 50), avg_voltage_v = 380\<rparr>"
  by (simp add: mkPayload_def firstState_def toFixed2_def INTERVAL_SECONDS_def)

section \<open>Stopping a session\<close>

text \<open>
  Claim C1, as amended. For every state in status \<open>running\<close> whose transaction id is
  non-empty, a stop request issues exactly one call, the end call for that id, and
  moves to \<open>stopping\<close>; the settling of that call issues none. When that call
  settles, resolved or rejected, and whatever other events came in between, the
  machine is in status \<open>idle\<close> with the dispensed energy and the elapsed seconds zero,
  the transaction id and the start time cleared and the charger state restored to the
  initial one. With an empty transaction id, or none, the stop request issues no call
  and leaves the machine reset in the same way at once.
\<close>

theorem stop_running_session:
  assumes "status s = running"
    and "\<forall>e \<in> set es. \<not> settlesEnd (length (requests s)) e"
  shows "(transactionId s = Some tid \<and> tid \<noteq> [] \<longrightarrow>
            requests (step ClickStop s) = requests s @ [endCharge tid]
          \<and> endCalls (step ClickStop s) = endCalls s + 1
          \<and> status (step ClickStop s) = stopping
          \<and> requests (run [ClickStop, EndResolved (length (requests s))] s) = requests s @ [endCharge tid]
          \<and> requests (run [ClickStop, EndRejected (length (requests s)) m] s) = requests s @ [endCharge tid]
          \<and> isReset (run (ClickStop # es @ [EndResolved (length (requests s))]) s)
          \<and> isReset (run (ClickStop # es @ [EndRejected (length (requests s)) m]) s))
       \<and> (transactionId s = None \<or> transactionId s = Some [] \<longrightarrow>
            requests (step ClickStop s) = requests s \<and> isReset (step ClickStop s))"
proof (intro conjI impI)
  assume "transactionId s = None \<or> transactionId s = Some []"
  then show "requests (step ClickStop s) = requests s" and "isReset (step ClickStop s)"
    using stop_without_id [OF assms(1)] by blast+
next
  assume t: "transactionId s = Some tid \<and> tid \<noteq> []"
  let ?k = "length (requests s)"
  let ?s' = "run es (step ClickStop s)"
  have id: "transactionId s = Some tid" and ne: "tid \<noteq> []" using t by simp_all
  show r: "requests (step ClickStop s) = requests s @ [endCharge tid]"
    using stop_issues_end(1) [OF assms(1) id ne] .
  show "status (step ClickStop s) = stopping"
    using stop_issues_end(3) [OF assms(1) id ne] .
  show "endCalls (step ClickStop s) = endCalls s + 1"
    by (simp add: endCalls_def r isEndCall_endCharge del: step.simps)
  show "requests (run [ClickStop, EndResolved ?k] s) = requests s @ [endCharge tid]"
    and "requests (run [ClickStop, EndRejected ?k m] s) = requests s @ [endCharge tid]"
    using r by (simp_all add: end_settle_requests del: step.simps)
  have "?k \<in> set (pendingEnd (step ClickStop s))"
    using stop_issues_end(2) [OF assms(1) id ne] by simp
  then have p: "?k \<in> set (pendingEnd ?s')"
    using pendingEnd_kept_run assms(2) by blast
  have "isReset (step (EndResolved ?k) ?s')" and "isReset (step (EndRejected ?k m) ?s')"
    using end_settles [OF p] by blast+
  then show "isReset (run (ClickStop # es @ [EndResolved ?k]) s)"
    and "isReset (run (ClickStop # es @ [EndRejected ?k m]) s)"
    by (simp_all add: run_append)
qed

theorem stop_running_session_witness:
  "status (runningApp ''tx'') = running \<and> transactionId (runningApp ''tx'') = Some ''tx''
   \<and> map endpoint (requests (step ClickStop (runningApp ''tx''))) =
       [start_charge, charge_update ''tx'', charge_end ''tx'']
   \<and> status (run [ClickStop, IntervalFired 0 halfDraws, UpdateRejected 1 None, EndRejected 2 None]
               (runningApp ''tx'')) = idle
   \<and> status (runningApp []) = running \<and> transactionId (runningApp []) = Some []
   \<and> status (step ClickStop (runningApp [])) = idle
   \<and> map endpoint (requests (step ClickStop (runningApp []))) = [start_charge]"
proof -
  have l: "length (requests (runningApp ''tx'')) = 2"
    using arg_cong [OF runningApp_eval(3) [of "''tx''"], of length] by simp
  show ?thesis
    using stop_running_session [of "runningApp ''tx''" "[IntervalFired 0 halfDraws, UpdateRejected 1 None]" "''tx''" None]
      stop_running_session [of "runningApp []" "[]" "[]" None]
    by (simp add: runningApp_eval l isReset_def endCharge_def del: step.simps)
qed

text \<open>
  Claim C1 as stated fails for a running session whose start call resolved with the
  empty transaction id: \<^verbatim>\<open>if (transactionId)\<close> skips the end call, and the stop
  resets at once without any call.
\<close>

theorem stop_empty_transaction_counterexample:
  "status (run [ClickStart 0, StartResolved 0 [] zeroDraws] initialApp) = running
   \<and> endCalls (run [ClickStart 0, StartResolved 0 [] zeroDraws] initialApp) = 0
   \<and> endCalls (run [ClickStart 0, StartResolved 0 [] zeroDraws, ClickStop] initialApp) = 0
   \<and> status (run [ClickStart 0, StartResolved 0 [] zeroDraws, ClickStop] initialApp) = idle"
  by (simp add: initialApp_def startEnabled_def stopEnabled_def startSession_def startResolved_def
      sendUpdate_def stopSession_def resetState_def Let_def endCalls_def
      isEndCall_def startCharge_def)

section \<open>A failed update\<close>

text \<open>
  Claim C2 at a concrete run. The first update of a session is rejected: the status
  becomes \<open>error\<close> and the message is recorded, but the interval reference and its
  timer stay as they were, and the next firing of the interval generates another
  state and issues a second update call.
\<close>

theorem update_failure_keeps_interval:
  "status (run [ClickStart 0, StartResolved 0 ''tx'' zeroDraws, UpdateRejected 1 (Some ''boom'')] initialApp) = error
   \<and> errorMessage (run [ClickStart 0, StartResolved 0 ''tx'' zeroDraws, UpdateRejected 1 (Some ''boom'')] initialApp) = Some ''boom''
   \<and> intervalRef (run [ClickStart 0, StartResolved 0 ''tx'' zeroDraws, UpdateRejected 1 (Some ''boom'')] initialApp) = Some 0
   \<and> timers (run [ClickStart 0, StartResolved 0 ''tx'' zeroDraws, UpdateRejected 1 (Some ''boom'')] initialApp) = [(0, ''tx'')]
   \<and> updateCalls (run [ClickStart 0, StartResolved 0 ''tx'' zeroDraws, UpdateRejected 1 (Some ''boom'')] initialApp) = 1
   \<and> updateCalls (run [ClickStart 0, StartResolved 0 ''tx'' zeroDraws, UpdateRejected 1 (Some ''boom''),
                        IntervalFired 0 halfDraws] initialApp) = 2
   \<and> soc (chargerState (run [ClickStart 0, StartResolved 0 ''tx'' zeroDraws, UpdateRejected 1 (Some ''boom''),
                        IntervalFired 0 halfDraws] initialApp)) = 45 / 2"
  by (simp add: initialApp_def first_state second_soc
      startEnabled_def startSession_def startResolved_def
      sendUpdate_def updateRejected_def Let_def updateCalls_def
      isUpdateCall_def startCharge_def sendChargeUpdate_def)

text \<open>
  Claim C3, as amended. A running session with a non-empty transaction id has an update
  call \<open>k\<close> in flight; the stop request and the resolved end call leave the machine
  reset in \<open>idle\<close>. If \<open>k\<close> is rejected afterwards, the status becomes \<open>error\<close> and
  the message is recorded; every other field stays as the reset left it. If \<open>k\<close>
  resolves afterwards, the machine stays reset.
\<close>

theorem late_update_failure:
  assumes "status s = running" and "transactionId s = Some tid" and "tid \<noteq> []"
    and "k \<in> set (pendingUpdate s)"
  shows "isReset (run [ClickStop, EndResolved (length (requests s))] s)
       \<and> status (run [ClickStop, EndResolved (length (requests s)), UpdateRejected k m] s) = error
       \<and> errorMessage (run [ClickStop, EndResolved (length (requests s)), UpdateRejected k m] s) = m
       \<and> run [ClickStop, EndResolved (length (requests s)), UpdateRejected k m] s =
           (run [ClickStop, EndResolved (length (requests s))] s)
             \<lparr>pendingUpdate := removeAll k (pendingUpdate s), errorMessage := m, status := error\<rparr>
       \<and> isReset (run [ClickStop, EndResolved (length (requests s)), UpdateResolved k] s)"
proof -
  let ?j = "length (requests s)"
  let ?s1 = "step ClickStop s"
  let ?s2 = "step (EndResolved ?j) ?s1"
  have j: "?j \<in> set (pendingEnd ?s1)"
    using stop_issues_end(2) [OF assms(1-3)] by simp
  have r: "isReset ?s2" using end_settles(1) [OF j] .
  have p: "pendingUpdate ?s2 = pendingUpdate s"
    using end_resolved_fields(1) [OF j] pendingUpdate_stop [OF assms(1-3)] by simp
  then have k: "k \<in> set (pendingUpdate ?s2)" using assms(4) by simp
  have u: "step (UpdateRejected k m) ?s2 =
             ?s2\<lparr>pendingUpdate := removeAll k (pendingUpdate s), errorMessage := m, status := error\<rparr>"
    using update_rejected_step [OF k] p by simp
  have v: "isReset (step (UpdateResolved k) ?s2)"
    using r k by (simp add: isReset_def)
  have run2: "run [ClickStop, EndResolved ?j] s = ?s2" by simp
  have run3: "run [ClickStop, EndResolved ?j, UpdateRejected k m] s = step (UpdateRejected k m) ?s2"
    by simp
  have run3': "run [ClickStop, EndResolved ?j, UpdateResolved k] s = step (UpdateResolved k) ?s2"
    by simp
  show ?thesis unfolding run2 run3 run3' using r u v by simp
qed

theorem late_update_failure_witness:
  "status (runningApp ''tx'') = running \<and> transactionId (runningApp ''tx'') = Some ''tx''
   \<and> 1 \<in> set (pendingUpdate (runningApp ''tx''))
   \<and> status (run [ClickStop, EndResolved 2] (runningApp ''tx'')) = idle
   \<and> status (run [ClickStop, EndResolved 2, UpdateRejected 1 None] (runningApp ''tx'')) = error"
proof -
  have l: "length (requests (runningApp ''tx'')) = 2"
    using arg_cong [OF runningApp_eval(3) [of "''tx''"], of length] by simp
  show ?thesis
    using late_update_failure [of "runningApp ''tx''" "''tx''" 1 None]
    by (simp add: runningApp_eval l isReset_def)
qed

text \<open>
  Claim C3 as stated fails: after start, first update, stop and a resolved end call
  the status is \<open>idle\<close>; the rejection of the update that was in flight moves it to
  \<open>error\<close>.
\<close>

theorem late_update_failure_counterexample:
  "status (run [ClickStart 0, StartResolved 0 ''tx'' zeroDraws, ClickStop, EndResolved 2] initialApp) = idle
   \<and> status (run [ClickStart 0, StartResolved 0 ''tx'' zeroDraws, ClickStop, EndResolved 2,
                   UpdateRejected 1 (Some ''boom'')] initialApp) = error"
  by (simp add: initialApp_def startEnabled_def stopEnabled_def startSession_def startResolved_def
      sendUpdate_def stopSession_def resetState_def updateRejected_def Let_def)

section \<open>Start requests\<close>

text \<open>
  Claim C4, as amended. In status \<open>starting\<close> or \<open>running\<close> a start request changes
  nothing, so it issues no call, and no event at all issues a start call from such a
  state. In status \<open>idle\<close> or \<open>error\<close> a start request issues exactly one call, the
  start call, and moves to \<open>starting\<close>.
\<close>

theorem start_requests:
  "(status s = starting \<or> status s = running \<longrightarrow>
      step (ClickStart now) s = s \<and> startCalls (step e s) = startCalls s)
   \<and> (status s = idle \<or> status s = error \<longrightarrow>
      requests (step (ClickStart now) s) = requests s @ [startCharge now 20]
      \<and> startCalls (step (ClickStart now) s) = startCalls s + 1
      \<and> status (step (ClickStart now) s) = starting)"
proof -
  have a: "step (ClickStart now) s = s \<and> startCalls (step e s) = startCalls s"
    if "status s = starting \<or> status s = running"
  proof -
    have "\<not> startEnabled s" using that by (auto simp: startEnabled_def)
    then show ?thesis using startCalls_other by simp
  qed
  have b: "requests (step (ClickStart now) s) = requests s @ [startCharge now 20]
      \<and> startCalls (step (ClickStart now) s) = startCalls s + 1
      \<and> status (step (ClickStart now) s) = starting"
    if "status s = idle \<or> status s = error"
  proof -
    have en: "startEnabled s" using that by (auto simp: startEnabled_def)
    have r: "requests (step (ClickStart now) s) = requests s @ [startCharge now 20]"
      using start_issues_call(1) [OF en] .
    have "startCalls (step (ClickStart now) s) = startCalls s + 1"
      by (simp add: startCalls_def r isStartCall_startCharge del: step.simps)
    then show ?thesis using r start_issues_call(2) [OF en] by simp
  qed
  show ?thesis using a b by blast
qed

theorem start_requests_witness:
  "status (runningApp ''tx'') = running
   \<and> step (ClickStart 7) (runningApp ''tx'') = runningApp ''tx''
   \<and> startCalls (step ClickStop (runningApp ''tx'')) = startCalls (runningApp ''tx'')
   \<and> status initialApp = idle
   \<and> requests (step (ClickStart 7) initialApp) = [startCharge 7 20]
   \<and> startCalls (step (ClickStart 7) initialApp) = 1"
  using start_requests [of "runningApp ''tx''" 7 ClickStop] start_requests [of initialApp 7 ClickStop]
  by (simp add: runningApp_eval initialApp_def startCalls_def isStartCall_startCharge del: step.simps)

text \<open>
  Claim C4 as stated fails in status \<open>error\<close>: after a rejected start the button is
  enabled, and a start request issues a second start call. Two start calls can also
  be in flight at once: a start request during \<open>stopping\<close> is accepted, the end call
  then resets the status to \<open>idle\<close>, and the next start request is accepted as well.
\<close>

theorem start_in_error_counterexample:
  "status (run [ClickStart 0, StartRejected 0 (Some ''boom'')] initialApp) = error
   \<and> startCalls (run [ClickStart 0, StartRejected 0 (Some ''boom'')] initialApp) = 1
   \<and> startCalls (run [ClickStart 0, StartRejected 0 (Some ''boom''), ClickStart 1] initialApp) = 2
   \<and> pendingStart (run [ClickStart 0, StartResolved 0 ''tx'' zeroDraws, ClickStop, ClickStart 5,
                         EndResolved 2, ClickStart 9] initialApp) = [(3, 5), (4, 9)]"
  by (simp add: initialApp_def startEnabled_def stopEnabled_def startSession_def startResolved_def
      startRejected_def sendUpdate_def stopSession_def resetState_def Let_def startCalls_def
      isStartCall_def startCharge_def sendChargeUpdate_def endCharge_def)

section \<open>The end call\<close>

text \<open>
  Claim C6 at a concrete run. At the stop of a running session the last telemetry
  snapshot, rounded, is the record shown, but the request issued for the end call has
  no body.
\<close>

theorem end_call_has_no_body:
  "mkPayload (chargerState (run [ClickStart 0, StartResolved 0 ''tx'' zeroDraws] initialApp)) =
     \<lparr>sample_time_increment = 1, soc_field = 21, temp_c = 20, avg_power_w = 45000,
      avg_current_a = Num (5921 / 50), avg_voltage_v = 380\<rparr>
   \<and> last (requests (run [ClickStart 0, StartResolved 0 ''tx'' zeroDraws, ClickStop] initialApp)) =
       \<lparr>endpoint = charge_end ''tx'', body = None\<rparr>
   \<and> endCalls (run [ClickStart 0, StartResolved 0 ''tx'' zeroDraws, ClickStop] initialApp) = 1"
  by (simp add: initialApp_def first_state first_payload
      startEnabled_def stopEnabled_def startSession_def startResolved_def
      sendUpdate_def stopSession_def Let_def endCalls_def
      isEndCall_def startCharge_def sendChargeUpdate_def endCharge_def)

end
